theory Spec2Isabelle
  imports Complex_Main
begin

section \<open>Data model (frontend/src/types/index.ts)\<close>

text \<open>
  The string-literal union types of the frontend become datatypes. Constructors of the
  three artifact status types carry a prefix, since HOL constructors share one name space.
  Records list the fields that the modelled page code reads; every other field of the
  TypeScript interface is left to the record's extension slot. Several interfaces have
  fields of the same name (\<^verbatim>\<open>id\<close>, \<^verbatim>\<open>title\<close>, \<^verbatim>\<open>status\<close>); they are
  written qualified, as in \<open>Requirement.status\<close>.
\<close>

datatype Role = Admin | Validation_Lead | QA | Executor

datatype ProjectStatus = Planning | URS | FS | DS | Testing | Completed | On_Hold

datatype RiskLevel = Low | Medium | High | Critical

datatype URSStatus = URS_Draft | URS_Under_Review | URS_Approved | URS_Obsolete

datatype FSStatus = FS_Draft | FS_Under_Review | FS_Approved

datatype DSStatus = DS_Draft | DS_Under_Review | DS_Approved

datatype TestResult = Not_Executed | Pass | Fail | Blocked

datatype TraceabilityStatus = Complete | Partial | Not_Started | Failed

record User =
  email :: string
  role :: Role

record SystemBoundary =
  id :: string
  status :: string

record Requirement =
  id :: string
  title :: string
  status :: URSStatus

record FunctionalSpecification =
  id :: string
  urs_id :: string
  title :: string
  status :: FSStatus

record DesignSpecification =
  id :: string
  fs_id :: string
  title :: string
  status :: DSStatus

record TestCase =
  id :: string
  fs_id :: string
  title :: string

text \<open>
  \<^verbatim>\<open>execution_date\<close> is an ISO date-time string in the interface. The only use the
  modelled code makes of it is \<^verbatim>\<open>new Date(e.execution_date).getTime()\<close>, the instant in
  milliseconds since the epoch, so the record stores that integer. A string that is not a
  date has no such integer and is outside the model.
\<close>

record TestExecution =
  id :: string
  test_case_id :: string
  cycle :: nat
  execution_date :: int
  result :: TestResult

text \<open>Optional fields (\<^verbatim>\<open>exec_result?: string\<close>) are options; the row keeps them as strings.\<close>

record TraceabilityRow =
  urs_id :: string
  exec_result :: "string option"
  deviation_id :: "string option"
  deviation_status :: "string option"
  status :: TraceabilityStatus

record DeviationCreate =
  test_execution_id :: string
  deviation_type :: string
  severity :: RiskLevel
  title :: string
  description :: string
  root_cause :: string
  capa_corrective :: string
  capa_preventive :: string

text \<open>An entry of an antd \<^verbatim>\<open>Select\<close>: the pair of its \<^verbatim>\<open>value\<close> and its \<^verbatim>\<open>label\<close>.\<close>

type_synonym SelectOption = "string \<times> string"

text \<open>
  \<^verbatim>\<open>useAuth()\<close> yields \<^verbatim>\<open>user: User | null\<close>; the pages read the role as
  \<^verbatim>\<open>user?.role\<close>, which is \<^verbatim>\<open>undefined\<close> for a missing user.
\<close>

definition user_role :: "User option \<Rightarrow> Role option" where
  "user_role user = map_option role user"

text \<open>
  JavaScript truthiness of an optional string: \<^verbatim>\<open>undefined\<close> and the empty string are
  falsy, every other string is truthy.
\<close>

definition truthy :: "string option \<Rightarrow> bool" where
  "truthy s \<longleftrightarrow> s \<noteq> None \<and> s \<noteq> Some []"

section \<open>JavaScript numbers\<close>

text \<open>
  A JavaScript number is an IEEE-754 double. The model represents a finite double by the
  rational it denotes. \<open>fl\<close> rounds a rational to the nearest number with a 53-bit
  significand, ties to the even significand; \<^verbatim>\<open>a / b\<close> and \<^verbatim>\<open>a * b\<close> are the exact
  result rounded by \<open>fl\<close>. The exponent range is not bounded: the values that occur below
  are quotients and percentages of array lengths (less than \<open>2 ^ 32\<close>), far inside
  the range of normal doubles, where the model and the hardware agree. Array lengths and
  differences of timestamps are integers below \<open>2 ^ 53\<close> and therefore exact.

  No divisor below is zero: each is a constant, guarded by a test or wrapped in
  \<^verbatim>\<open>Math.max(..., 1)\<close>.

  \<^verbatim>\<open>Math.round(x)\<close> is the integer closest to \<open>x\<close>, the larger one at a tie, that is
  \<open>\<lfloor>x + 1/2\<rfloor>\<close>, computed exactly.
\<close>

function bit_length :: "int \<Rightarrow> int" where
  "bit_length a = (if a \<le> 0 then 0 else 1 + bit_length (a div 2))"
  by pat_completeness auto
termination
  by (relation "measure nat") auto

declare bit_length.simps [simp del]

definition round_half_even :: "rat \<Rightarrow> int" where
  "round_half_even q =
     (let f = \<lfloor>q\<rfloor>; r = q - of_int f
      in if r < 1/2 then f else if 1/2 < r then f + 1 else if even f then f else f + 1)"

text \<open>\<open>ilog2 x\<close> is the binary exponent of a positive rational: \<open>2 powi e \<le> x < 2 powi (e + 1)\<close>.\<close>

definition ilog2 :: "rat \<Rightarrow> int" where
  "ilog2 x =
     (let (a, b) = quotient_of x;
          d = bit_length a - bit_length b
      in if 2 powi d \<le> x then d else d - 1)"

definition fl :: "rat \<Rightarrow> rat" where
  "fl x =
     (if x = 0 then 0
      else let s = ilog2 \<bar>x\<bar> - 52;
               m = round_half_even (\<bar>x\<bar> / 2 powi s)
           in sgn x * of_int m * 2 powi s)"

definition js_div :: "rat \<Rightarrow> rat \<Rightarrow> rat" where
  "js_div a b = fl (a / b)"

definition js_mul :: "rat \<Rightarrow> rat \<Rightarrow> rat" where
  "js_mul a b = fl (a * b)"

definition Math_round :: "rat \<Rightarrow> int" where
  "Math_round x = \<lfloor>x + 1/2\<rfloor>"

text \<open>
  The numbers with a significand of at most 53 bits, against which \<open>fl\<close> is checked
  below. This predicate is a specification; nothing evaluates it.
\<close>

definition representable :: "rat \<Rightarrow> bool" where
  "representable y \<longleftrightarrow> (\<exists>m k. y = of_int m * 2 powi k \<and> \<bar>m\<bar> < 2 ^ 53)"

text \<open>
  \<^verbatim>\<open>Array.prototype.indexOf\<close>: the first position of the element, \<open>-1\<close> when absent.
\<close>

fun indexOf :: "'a list \<Rightarrow> 'a \<Rightarrow> int" where
  "indexOf [] x = - 1"
| "indexOf (y # ys) x =
     (if y = x then 0 else let i = indexOf ys x in if i < 0 then - 1 else i + 1)"

text \<open>
  \<^verbatim>\<open>Array.prototype.sort(cmp)\<close> is a stable sort: \<open>a\<close> is placed before \<open>b\<close> when
  \<open>cmp a b < 0\<close>, and elements that compare equal keep their order. For a comparator that
  is a difference of keys the result is determined by these two facts; the model computes
  it by stable insertion.
\<close>

fun insert_by :: "('a \<Rightarrow> 'a \<Rightarrow> int) \<Rightarrow> 'a \<Rightarrow> 'a list \<Rightarrow> 'a list" where
  "insert_by cmp x [] = [x]"
| "insert_by cmp x (y # ys) = (if cmp x y \<le> 0 then x # y # ys else y # insert_by cmp x ys)"

definition Array_sort :: "('a \<Rightarrow> 'a \<Rightarrow> int) \<Rightarrow> 'a list \<Rightarrow> 'a list" where
  "Array_sort cmp xs = foldr (insert_by cmp) xs []"

text \<open>\<^verbatim>\<open>new Set(xs).size\<close>: the number of distinct elements.\<close>

definition Set_size :: "'a list \<Rightarrow> nat" where
  "Set_size xs = card (set xs)"

section \<open>Dashboard page: project progress\<close>

text \<open>
  \<^verbatim>\<open>
  const getProgressPercent = (status: ProjectStatus) => {
    const stages: ProjectStatus[] = ['Planning', 'URS', 'FS', 'DS', 'Testing', 'Completed'];
    const idx = stages.indexOf(status);
    return Math.round((idx / (stages.length - 1)) * 100);
  };
  \<close>
\<close>

definition stages :: "ProjectStatus list" where
  "stages = [Planning, URS, FS, DS, Testing, Completed]"

definition getProgressPercent :: "ProjectStatus \<Rightarrow> int" where
  "getProgressPercent st =
     (let idx = indexOf stages st
      in Math_round (js_mul (js_div (of_int idx) (of_int (int (length stages) - 1))) 100))"

section \<open>Test management page\<close>

text \<open>
  \<^verbatim>\<open>
  const getLatestExecution = (tcId: string) => {
    return executions.filter(e => e.test_case_id === tcId).sort((a, b) =>
      new Date(b.execution_date).getTime() - new Date(a.execution_date).getTime()
    )[0];
  };
  \<close>
  Indexing an empty array yields \<^verbatim>\<open>undefined\<close>, here \<open>None\<close>.
\<close>

definition getLatestExecution :: "TestExecution list \<Rightarrow> string \<Rightarrow> TestExecution option" where
  "getLatestExecution executions tcId =
     (case Array_sort (\<lambda>a b. execution_date b - execution_date a)
             (filter (\<lambda>e. test_case_id e = tcId) executions) of
        [] \<Rightarrow> None
      | e # _ \<Rightarrow> Some e)"

text \<open>
  The Status column of a test case shows the result of its latest execution, and
  \<^verbatim>\<open>Not Executed\<close> when there is none.
\<close>

definition status_column :: "TestExecution list \<Rightarrow> TestCase \<Rightarrow> TestResult" where
  "status_column executions tc =
     (case getLatestExecution executions (TestCase.id tc) of
        Some exec \<Rightarrow> result exec
      | None \<Rightarrow> Not_Executed)"

record TestStats =
  total :: nat
  passed :: nat
  failed :: nat
  blocked :: nat
  notExecuted :: int

text \<open>
  \<^verbatim>\<open>
  const stats = {
    total: testCases.length,
    passed: executions.filter(e => e.result === 'Pass').length,
    failed: executions.filter(e => e.result === 'Fail').length,
    blocked: executions.filter(e => e.result === 'Blocked').length,
    notExecuted: testCases.length - new Set(executions.map(e => e.test_case_id)).size,
  };
  const passRate = stats.total > 0 ? Math.round(stats.passed
     / Math.max(executions.filter(e => e.result !== 'Not Executed').length, 1) * 100) : 0;
  \<close>
\<close>

definition test_stats :: "TestCase list \<Rightarrow> TestExecution list \<Rightarrow> TestStats" where
  "test_stats testCases executions =
     \<lparr>TestStats.total = length testCases,
      TestStats.passed = length (filter (\<lambda>e. result e = Pass) executions),
      TestStats.failed = length (filter (\<lambda>e. result e = Fail) executions),
      TestStats.blocked = length (filter (\<lambda>e. result e = Blocked) executions),
      TestStats.notExecuted =
        int (length testCases) - int (Set_size (map test_case_id executions))\<rparr>"

definition passRate :: "TestCase list \<Rightarrow> TestExecution list \<Rightarrow> int" where
  "passRate testCases executions =
     (let stats = test_stats testCases executions
      in if 0 < TestStats.total stats
         then Math_round
                (js_mul
                  (js_div (of_nat (TestStats.passed stats))
                     (of_nat (max (length (filter (\<lambda>e. result e \<noteq> Not_Executed) executions)) 1)))
                  100)
         else 0)"

text \<open>
  \<^verbatim>\<open>disabled={user?.role !== 'Executor' && user?.role !== 'Admin'}\<close>
\<close>

definition execute_disabled :: "User option \<Rightarrow> bool" where
  "execute_disabled user \<longleftrightarrow> user_role user \<noteq> Some Executor \<and> user_role user \<noteq> Some Admin"

section \<open>Traceability matrix page\<close>

record TraceStats =
  total :: nat
  complete :: nat
  partial :: nat
  notStarted :: nat
  failed :: nat



text \<open>
  The summary report page shows the same ratio from two numbers of the report object:
  \<^verbatim>\<open>Math.round((complete_chains / Math.max(total_urs, 1)) * 100)\<close>.
\<close>

definition vsr_coverage :: "nat \<Rightarrow> nat \<Rightarrow> int" where
  "vsr_coverage complete_chains total_urs =
     Math_round (js_mul (js_div (of_nat complete_chains) (of_nat (max total_urs 1))) 100)"

text \<open>
  The Deviation column:
  \<^verbatim>\<open>
  render: (id: string, row: TraceabilityRow) => id ? (
      <Space>{renderClickableId(id, 'DEV')}
        <Tag color={row.deviation_status === 'Closed' ? 'success' : 'error'}>
          {row.deviation_status}</Tag></Space>
    ) : (
      row.exec_result === 'Fail' ? (
        <Tag color="warning" icon={<WarningOutlined />}>Expected</Tag>
      ) : null
    )
  \<close>
  with \<^verbatim>\<open>dataIndex: 'deviation_id'\<close>, so \<^verbatim>\<open>id\<close> is the row's \<^verbatim>\<open>deviation_id\<close>.
\<close>

datatype DeviationCell =
  DeviationLink string string "string option"
| ExpectedTag
| NoCell

definition deviation_column :: "TraceabilityRow \<Rightarrow> DeviationCell" where
  "deviation_column row =
     (case deviation_id row of
        Some i \<Rightarrow>
          if i \<noteq> []
          then DeviationLink i
                 (if deviation_status row = Some ''Closed'' then ''success'' else ''error'')
                 (deviation_status row)
          else if exec_result row = Some ''Fail'' then ExpectedTag else NoCell
      | None \<Rightarrow> if exec_result row = Some ''Fail'' then ExpectedTag else NoCell)"

section \<open>Approve controls\<close>

text \<open>
  Each page renders its Approve button under the same condition, for example on the
  requirements page
  \<^verbatim>\<open>{selectedURS.status !== 'Approved' && user?.role === 'QA' && (<Button ...>Approve</Button>)}\<close>.
  The status of a system boundary is a plain string.
\<close>

definition URSPage_approve :: "User option \<Rightarrow> Requirement \<Rightarrow> bool" where
  "URSPage_approve user selectedURS \<longleftrightarrow>
     Requirement.status selectedURS \<noteq> URS_Approved \<and> user_role user = Some QA"

definition FSPage_approve :: "User option \<Rightarrow> FunctionalSpecification \<Rightarrow> bool" where
  "FSPage_approve user selectedFS \<longleftrightarrow>
     FunctionalSpecification.status selectedFS \<noteq> FS_Approved \<and> user_role user = Some QA"

definition DSPage_approve :: "User option \<Rightarrow> DesignSpecification \<Rightarrow> bool" where
  "DSPage_approve user selectedDS \<longleftrightarrow>
     DesignSpecification.status selectedDS \<noteq> DS_Approved \<and> user_role user = Some QA"

definition SystemBoundaryPage_approve :: "User option \<Rightarrow> SystemBoundary \<Rightarrow> bool" where
  "SystemBoundaryPage_approve user boundary \<longleftrightarrow>
     SystemBoundary.status boundary \<noteq> ''Approved'' \<and> user_role user = Some QA"

section \<open>Creation forms of the FS and DS pages\<close>

text \<open>
  \<^verbatim>\<open>
  const approvedURS = ursList.filter(u => u.status === 'Approved');
  <Button ... disabled={approvedURS.length === 0}>New FS</Button>
  <Select options={approvedURS.map(u => ({ value: u.id, label: `${u.id}: ${u.title}` }))} />
  \<close>
  and the same on the DS page with \<^verbatim>\<open>approvedFS\<close> and \<^verbatim>\<open>fsList\<close>.
\<close>

definition approvedURS :: "Requirement list \<Rightarrow> Requirement list" where
  "approvedURS ursList = filter (\<lambda>u. Requirement.status u = URS_Approved) ursList"

definition new_FS_disabled :: "Requirement list \<Rightarrow> bool" where
  "new_FS_disabled ursList \<longleftrightarrow> length (approvedURS ursList) = 0"

definition FS_form_options :: "Requirement list \<Rightarrow> SelectOption list" where
  "FS_form_options ursList =
     map (\<lambda>u. (Requirement.id u, Requirement.id u @ '': '' @ Requirement.title u))
       (approvedURS ursList)"

definition approvedFS :: "FunctionalSpecification list \<Rightarrow> FunctionalSpecification list" where
  "approvedFS fsList = filter (\<lambda>f. FunctionalSpecification.status f = FS_Approved) fsList"

definition new_DS_disabled :: "FunctionalSpecification list \<Rightarrow> bool" where
  "new_DS_disabled fsList \<longleftrightarrow> length (approvedFS fsList) = 0"

definition DS_form_options :: "FunctionalSpecification list \<Rightarrow> SelectOption list" where
  "DS_form_options fsList =
     map (\<lambda>f. (FunctionalSpecification.id f,
                 FunctionalSpecification.id f @ '': '' @ FunctionalSpecification.title f))
       (approvedFS fsList)"

section \<open>Deviation page: logging a deviation\<close>

text \<open>
  \<^verbatim>\<open>loadData\<close> keeps the failed executions only,
  \<^verbatim>\<open>setExecutions(execs.filter(e => e.result === 'Fail'))\<close>, and the form offers them:
  \<^verbatim>\<open>options={executions.map(e => ({ value: e.id, label: `${e.id} - ${e.test_case_id}` }))}\<close>.
\<close>

definition failed_executions :: "TestExecution list \<Rightarrow> TestExecution list" where
  "failed_executions execs = filter (\<lambda>e. result e = Fail) execs"

definition deviation_form_options :: "TestExecution list \<Rightarrow> SelectOption list" where
  "deviation_form_options execs =
     map (\<lambda>e. (TestExecution.id e, TestExecution.id e @ '' - '' @ test_case_id e))
       (failed_executions execs)"

text \<open>
  The five items of the form \<^verbatim>\<open>Log New Deviation\<close> all carry
  \<^verbatim>\<open>rules={[{ required: true }]}\<close>. A field of the form store is absent until the user
  fills it. \<^verbatim>\<open>form.submit()\<close> validates the rules and calls \<^verbatim>\<open>onFinish={handleCreate}\<close>
  with the values only when every rule holds; the rule \<^verbatim>\<open>required\<close> fails for an absent
  value and for the empty string.
\<close>

record DeviationFields =
  f_test_execution_id :: "string option"
  f_deviation_type :: "string option"
  f_severity :: "RiskLevel option"
  f_title :: "string option"
  f_description :: "string option"

datatype FormError = Required string

definition required_errors :: "DeviationFields \<Rightarrow> FormError list" where
  "required_errors vs =
     (if truthy (f_test_execution_id vs) then [] else [Required ''test_execution_id'']) @
     (if truthy (f_deviation_type vs) then [] else [Required ''deviation_type'']) @
     (if f_severity vs \<noteq> None then [] else [Required ''severity'']) @
     (if truthy (f_title vs) then [] else [Required ''title'']) @
     (if truthy (f_description vs) then [] else [Required ''description''])"

text \<open>
  \<^verbatim>\<open>
  await deviationApi.create({
    test_execution_id: values.test_execution_id,
    deviation_type: values.deviation_type,
    severity: values.severity,
    title: values.title,
    description: values.description,
    root_cause: '', capa_corrective: '', capa_preventive: '',
  }, user!.email, user!.role);
  \<close>
  The request is the result of the model; \<open>submit_deviation\<close> is the path from the
  OK button of the dialog to that request.
\<close>

definition submit_deviation :: "DeviationFields \<Rightarrow> FormError list + DeviationCreate" where
  "submit_deviation vs =
     (case (f_test_execution_id vs, f_deviation_type vs, f_severity vs,
            f_title vs, f_description vs) of
        (Some x, Some ty, Some sv, Some ti, Some d) \<Rightarrow>
          if required_errors vs = []
          then Inr \<lparr>test_execution_id = x, deviation_type = ty, severity = sv,
                    DeviationCreate.title = ti, description = d,
                    root_cause = [], capa_corrective = [], capa_preventive = []\<rparr>
          else Inl (required_errors vs)
      | _ \<Rightarrow> Inl (required_errors vs))"

section \<open>Example records\<close>

text \<open>Concrete records, on which the theorems below are instantiated and evaluated.\<close>

definition admin_user :: User where
  "admin_user = \<lparr>email = ''admin@pharma.example'', role = Admin\<rparr>"

definition qa_user :: User where
  "qa_user = \<lparr>email = ''qa@pharma.example'', role = QA\<rparr>"

definition executor_user :: User where
  "executor_user = \<lparr>email = ''executor@pharma.example'', role = Executor\<rparr>"

definition req_draft :: Requirement where
  "req_draft = \<lparr>Requirement.id = ''URS-001'', Requirement.title = ''Audit trail'',
     Requirement.status = URS_Draft\<rparr>"

definition req_approved :: Requirement where
  "req_approved = \<lparr>Requirement.id = ''URS-002'', Requirement.title = ''E-signature'',
     Requirement.status = URS_Approved\<rparr>"

definition fs_review :: FunctionalSpecification where
  "fs_review = \<lparr>FunctionalSpecification.id = ''FS-001'', urs_id = ''URS-002'',
     FunctionalSpecification.title = ''Signature dialog'',
     FunctionalSpecification.status = FS_Under_Review\<rparr>"

definition fs_approved :: FunctionalSpecification where
  "fs_approved = \<lparr>FunctionalSpecification.id = ''FS-002'', urs_id = ''URS-002'',
     FunctionalSpecification.title = ''Signature record'',
     FunctionalSpecification.status = FS_Approved\<rparr>"

definition tc_1 :: TestCase where
  "tc_1 = \<lparr>TestCase.id = ''TC-001'', TestCase.fs_id = ''FS-002'', TestCase.title = ''Sign''\<rparr>"

definition tc_2 :: TestCase where
  "tc_2 = \<lparr>TestCase.id = ''TC-002'', TestCase.fs_id = ''FS-002'', TestCase.title = ''Verify''\<rparr>"

text \<open>
  Two executions of the same test case at the same instant, the second in a later cycle,
  a third one six minutes later, and one of another test case that was not carried out.
\<close>

definition ex_fail :: TestExecution where
  "ex_fail = \<lparr>TestExecution.id = ''EX-001'', test_case_id = ''TC-001'', cycle = 1,
     execution_date = 1700000000000, result = Fail\<rparr>"

definition ex_pass :: TestExecution where
  "ex_pass = \<lparr>TestExecution.id = ''EX-002'', test_case_id = ''TC-001'', cycle = 2,
     execution_date = 1700000000000, result = Pass\<rparr>"

definition ex_late :: TestExecution where
  "ex_late = \<lparr>TestExecution.id = ''EX-003'', test_case_id = ''TC-001'', cycle = 3,
     execution_date = 1700000360000, result = Blocked\<rparr>"

definition ex_skipped :: TestExecution where
  "ex_skipped = \<lparr>TestExecution.id = ''EX-004'', test_case_id = ''TC-002'', cycle = 1,
     execution_date = 1700000000000, result = Not_Executed\<rparr>"

definition row_a :: TraceabilityRow where
  "row_a = \<lparr>urs_id = ''URS-001'', exec_result = Some ''Pass'', deviation_id = None,
     deviation_status = None, TraceabilityRow.status = Complete\<rparr>"

definition row_b :: TraceabilityRow where
  "row_b = \<lparr>urs_id = ''URS-002'', exec_result = Some ''Fail'', deviation_id = None,
     deviation_status = None, TraceabilityRow.status = Failed\<rparr>"

definition row_c :: TraceabilityRow where
  "row_c = \<lparr>urs_id = ''URS-003'', exec_result = None, deviation_id = None,
     deviation_status = None, TraceabilityRow.status = Not_Started\<rparr>"


definition fields_unlinked :: DeviationFields where
  "fields_unlinked = \<lparr>f_test_execution_id = None, f_deviation_type = Some ''Process'',
     f_severity = Some Medium, f_title = Some ''Missed review'',
     f_description = Some ''Review step skipped''\<rparr>"

definition fields_linked :: DeviationFields where
  "fields_linked = \<lparr>f_test_execution_id = Some ''EX-001'', f_deviation_type = Some ''Test Failure'',
     f_severity = Some High, f_title = Some ''Signing fails'',
     f_description = Some ''A valid signature was rejected''\<rparr>"

section \<open>Properties of the number model\<close>

subsection \<open>Binary exponent and rounding to an integer\<close>

lemma bit_length_nonneg: "0 \<le> bit_length a"
proof (induction a rule: bit_length.induct)
  case (1 a)
  show ?case
  proof (cases "a \<le> 0")
    case True
    then show ?thesis by (subst bit_length.simps) simp
  next
    case False
    with "1.IH" have "0 \<le> bit_length (a div 2)" by simp
    with False show ?thesis by (subst bit_length.simps) simp
  qed
qed

lemma bit_length_pos: "0 < a \<Longrightarrow> 1 \<le> bit_length a"
  using bit_length_nonneg [of "a div 2"] by (subst bit_length.simps) simp

lemma bit_length_bounds:
  "0 < a \<Longrightarrow> 2 ^ nat (bit_length a - 1) \<le> a \<and> a < 2 ^ nat (bit_length a)"
proof (induction a rule: bit_length.induct)
  case (1 a)
  show ?case
  proof (cases "a = 1")
    case True
    have "bit_length 1 = 1"
      by (subst bit_length.simps, simp, subst bit_length.simps, simp)
    with True show ?thesis by simp
  next
    case False
    with "1.prems" have h: "0 < a div 2" by simp
    define L where "L = (2::int) ^ nat (bit_length (a div 2) - 1)"
    define U where "U = (2::int) ^ nat (bit_length (a div 2))"
    from "1.IH" "1.prems" h have ih: "L \<le> a div 2" "a div 2 < U"
      by (auto simp: L_def U_def)
    have bl: "bit_length a = 1 + bit_length (a div 2)"
      using "1.prems" by (subst bit_length.simps) simp
    have p: "1 \<le> bit_length (a div 2)" using h by (rule bit_length_pos)
    have e1: "nat (bit_length a - 1) = Suc (nat (bit_length (a div 2) - 1))"
      using bl p by simp
    have e2: "nat (bit_length a) = Suc (nat (bit_length (a div 2)))"
      using bl p by simp
    have "2 * L \<le> a" "a < 2 * U" using ih by linarith+
    then show ?thesis
      unfolding e1 e2 by (simp add: L_def U_def)
  qed
qed

lemma ilog2_lower: assumes "0 < x" shows "2 powi (ilog2 x) \<le> x"
proof -
  obtain a b where q: "quotient_of x = (a, b)" by (cases "quotient_of x")
  have b: "0 < b" using q by (rule quotient_of_denom_pos)
  have x: "x = of_int a / of_int b" using q by (rule quotient_of_div)
  have a: "0 < a" using assms b x by (simp add: zero_less_divide_iff)
  define d where "d = bit_length a - bit_length b"
  show ?thesis
  proof (cases "2 powi d \<le> x")
    case True
    then show ?thesis by (simp add: ilog2_def q d_def)
  next
    case False
    then have e: "ilog2 x = d - 1" by (simp add: ilog2_def q d_def)
    have la: "1 \<le> bit_length a" and lb: "1 \<le> bit_length b"
      using a b by (simp_all add: bit_length_pos)
    have "(2::int) ^ nat (bit_length a - 1) \<le> a" using bit_length_bounds [OF a] by simp
    then have "of_int ((2::int) ^ nat (bit_length a - 1)) \<le> (of_int a :: rat)"
      by (simp only: of_int_le_iff)
    then have A: "(2::rat) ^ nat (bit_length a - 1) \<le> of_int a" by simp
    have "b \<le> 2 ^ nat (bit_length b)" using bit_length_bounds [OF b] by simp
    then have "(of_int b :: rat) \<le> of_int ((2::int) ^ nat (bit_length b))"
      by (simp only: of_int_le_iff)
    then have B: "(of_int b :: rat) \<le> 2 ^ nat (bit_length b)" by simp
    have "(2::rat) ^ nat (bit_length a - 1) / 2 ^ nat (bit_length b) \<le> of_int a / of_int b"
      using A B a b by (intro frac_le) simp_all
    moreover have "(2::rat) powi (d - 1) = 2 ^ nat (bit_length a - 1) / 2 ^ nat (bit_length b)"
    proof -
      have "d - 1 = (bit_length a - 1) - bit_length b" by (simp add: d_def)
      then have "(2::rat) powi (d - 1) = 2 powi (bit_length a - 1) / 2 powi (bit_length b)"
        by (simp add: power_int_diff)
      then show ?thesis using la lb by (simp add: power_int_def)
    qed
    ultimately show ?thesis using e x by simp
  qed
qed

lemma ilog2_upper: assumes "0 < x" shows "x < 2 powi (ilog2 x + 1)"
proof -
  obtain a b where q: "quotient_of x = (a, b)" by (cases "quotient_of x")
  have b: "0 < b" using q by (rule quotient_of_denom_pos)
  have x: "x = of_int a / of_int b" using q by (rule quotient_of_div)
  have a: "0 < a" using assms b x by (simp add: zero_less_divide_iff)
  define d where "d = bit_length a - bit_length b"
  show ?thesis
  proof (cases "2 powi d \<le> x")
    case False
    then show ?thesis by (simp add: ilog2_def q d_def)
  next
    case True
    then have e: "ilog2 x = d" by (simp add: ilog2_def q d_def)
    have la: "1 \<le> bit_length a" and lb: "1 \<le> bit_length b"
      using a b by (simp_all add: bit_length_pos)
    have "a < 2 ^ nat (bit_length a)" using bit_length_bounds [OF a] by simp
    then have "(of_int a :: rat) < of_int ((2::int) ^ nat (bit_length a))"
      by (simp only: of_int_less_iff)
    then have A: "(of_int a :: rat) < 2 ^ nat (bit_length a)" by simp
    have "(2::int) ^ nat (bit_length b - 1) \<le> b" using bit_length_bounds [OF b] by simp
    then have "of_int ((2::int) ^ nat (bit_length b - 1)) \<le> (of_int b :: rat)"
      by (simp only: of_int_le_iff)
    then have B: "(2::rat) ^ nat (bit_length b - 1) \<le> of_int b" by simp
    have "of_int a / of_int b < (2::rat) ^ nat (bit_length a) / 2 ^ nat (bit_length b - 1)"
      using A B a b by (intro frac_less) simp_all
    moreover have "(2::rat) powi (d + 1) = 2 ^ nat (bit_length a) / 2 ^ nat (bit_length b - 1)"
    proof -
      have "d + 1 = bit_length a - (bit_length b - 1)" by (simp add: d_def)
      then have "(2::rat) powi (d + 1) = 2 powi (bit_length a - (bit_length b - 1))"
        by (simp only:)
      also have "\<dots> = 2 powi (bit_length a) / 2 powi (bit_length b - 1)"
        by (rule power_int_diff) simp
      finally show ?thesis using la lb by (simp add: power_int_def)
    qed
    ultimately show ?thesis using e x by simp
  qed
qed

lemma round_half_even_error: "\<bar>of_int (round_half_even q) - q\<bar> \<le> 1/2"
proof -
  have "of_int \<lfloor>q\<rfloor> \<le> q" "q < of_int \<lfloor>q\<rfloor> + 1" by linarith+
  then show ?thesis
    by (auto simp: round_half_even_def Let_def)
qed

lemma round_half_even_nearest: "\<bar>of_int (round_half_even q) - q\<bar> \<le> \<bar>of_int j - q\<bar>"
proof -
  have fl: "of_int \<lfloor>q\<rfloor> \<le> q" "q < of_int \<lfloor>q\<rfloor> + 1" by linarith+
  consider "j \<le> \<lfloor>q\<rfloor>" | "\<lfloor>q\<rfloor> + 1 \<le> j" by linarith
  then show ?thesis
  proof cases
    case 1
    then have "(of_int j :: rat) \<le> of_int \<lfloor>q\<rfloor>" by (simp only: of_int_le_iff)
    with fl show ?thesis by (auto simp: round_half_even_def Let_def)
  next
    case 2
    then have "(of_int (\<lfloor>q\<rfloor> + 1) :: rat) \<le> of_int j" by (simp only: of_int_le_iff)
    then have "of_int \<lfloor>q\<rfloor> + 1 \<le> (of_int j :: rat)" by simp
    with fl show ?thesis by (auto simp: round_half_even_def Let_def)
  qed
qed

lemma round_half_even_of_int: "round_half_even (of_int j) = j"
  by (simp add: round_half_even_def Let_def)

lemma round_half_even_bounds:
  assumes "of_int a \<le> q" and "q \<le> of_int b"
  shows "a \<le> round_half_even q \<and> round_half_even q \<le> b"
proof -
  have f: "a \<le> \<lfloor>q\<rfloor>" using assms(1) by (simp add: le_floor_iff)
  have "q = of_int b \<or> \<lfloor>q\<rfloor> + 1 \<le> b"
  proof (cases "q = of_int b")
    case False
    with assms(2) have "q < of_int b" by simp
    then have "\<lfloor>q\<rfloor> < b" by (simp add: floor_less_iff)
    then show ?thesis by simp
  qed simp
  then show ?thesis
  proof
    assume "q = of_int b"
    then show ?thesis using f by (simp add: round_half_even_def Let_def)
  next
    assume "\<lfloor>q\<rfloor> + 1 \<le> b"
    with f show ?thesis by (auto simp: round_half_even_def Let_def)
  qed
qed

subsection \<open>Rounding to a double\<close>

text \<open>
  \<open>fl x\<close> is a number with a significand of 53 bits, no such number is closer to \<open>x\<close>,
  the rounding moves \<open>x\<close> by at most the fraction \<open>1 / 2 ^ 53\<close> of its size, and integers
  below \<open>2 ^ 53\<close> are not moved at all.
\<close>

lemma fl_abs_diff:
  assumes "x \<noteq> 0"
  defines "s \<equiv> ilog2 \<bar>x\<bar> - 52"
  shows "\<bar>fl x - x\<bar> = 2 powi s * \<bar>of_int (round_half_even (\<bar>x\<bar> / 2 powi s)) - \<bar>x\<bar> / 2 powi s\<bar>"
proof -
  define m where "m = round_half_even (\<bar>x\<bar> / 2 powi s)"
  have f: "fl x = sgn x * of_int m * 2 powi s"
    using assms(1) by (simp add: fl_def Let_def s_def m_def)
  have sx: "\<bar>x\<bar> * sgn x = x" by (simp add: abs_if sgn_if)
  have "fl x - x = sgn x * (of_int m * 2 powi s - \<bar>x\<bar>)"
    using f sx by (simp add: algebra_simps)
  then have "\<bar>fl x - x\<bar> = \<bar>of_int m * 2 powi s - \<bar>x\<bar>\<bar>"
    using assms(1) by (simp add: abs_mult abs_sgn_eq)
  also have "of_int m * 2 powi s - \<bar>x\<bar> = 2 powi s * (of_int m - \<bar>x\<bar> / 2 powi s)"
    by (simp add: algebra_simps)
  finally show ?thesis by (simp add: abs_mult m_def)
qed

lemma fl_error: "\<bar>fl x - x\<bar> \<le> \<bar>x\<bar> / 2 ^ 53"
proof (cases "x = 0")
  case True
  then show ?thesis by (simp add: fl_def)
next
  case False
  define s where "s = ilog2 \<bar>x\<bar> - 52"
  have "\<bar>of_int (round_half_even (\<bar>x\<bar> / 2 powi s)) - \<bar>x\<bar> / 2 powi s\<bar> \<le> 1/2"
    by (rule round_half_even_error)
  then have "2 powi s * \<bar>of_int (round_half_even (\<bar>x\<bar> / 2 powi s)) - \<bar>x\<bar> / 2 powi s\<bar> \<le> 2 powi s * (1/2)"
    by (intro mult_left_mono) simp_all
  then have 1: "\<bar>fl x - x\<bar> \<le> 2 powi s / 2"
    using fl_abs_diff [OF False] by (simp add: s_def)
  have "2 powi (ilog2 \<bar>x\<bar>) \<le> \<bar>x\<bar>" using False by (intro ilog2_lower) simp
  moreover have "(2::rat) powi s = 2 powi (ilog2 \<bar>x\<bar>) / 2 ^ 52"
    by (simp add: s_def power_int_diff)
  ultimately have "(2::rat) powi s \<le> \<bar>x\<bar> / 2 ^ 52"
    by (simp add: divide_right_mono)
  with 1 show ?thesis by simp
qed

lemma fl_significand:
  assumes "x \<noteq> 0"
  shows "\<exists>m. fl x = sgn x * of_int m * 2 powi (ilog2 \<bar>x\<bar> - 52) \<and> 2 ^ 52 \<le> m \<and> m \<le> 2 ^ 53"
proof -
  define e where "e = ilog2 \<bar>x\<bar>"
  define q where "q = \<bar>x\<bar> / 2 powi (e - 52)"
  have pos: "0 < \<bar>x\<bar>" using assms by simp
  have lo: "2 powi e \<le> \<bar>x\<bar>" unfolding e_def using pos by (rule ilog2_lower)
  have hi: "\<bar>x\<bar> < 2 powi (e + 1)" unfolding e_def using pos by (rule ilog2_upper)
  have p: "(2::rat) powi (e - 52) = 2 powi e / 2 ^ 52" by (simp add: power_int_diff)
  have p1: "(2::rat) powi (e + 1) = 2 powi e * 2" by (simp add: power_int_add)
  have e0: "(0::rat) < 2 powi e" by simp
  define r where "r = \<bar>x\<bar> / 2 powi e"
  have q: "q = r * 2 ^ 52" by (simp add: q_def p r_def)
  have "1 \<le> r" unfolding r_def using lo e0 by (simp add: pos_le_divide_eq)
  moreover have "r \<le> 2" unfolding r_def using hi e0 unfolding p1 by (simp add: pos_divide_le_eq)
  ultimately have "of_int (2 ^ 52) \<le> q" "q \<le> of_int (2 ^ 53)" unfolding q by simp_all
  then have "2 ^ 52 \<le> round_half_even q \<and> round_half_even q \<le> 2 ^ 53"
    by (rule round_half_even_bounds)
  moreover have "fl x = sgn x * of_int (round_half_even q) * 2 powi (e - 52)"
    using assms by (simp add: fl_def Let_def q_def e_def)
  ultimately show ?thesis unfolding e_def by blast
qed

lemma fl_minus: "fl (- x) = - fl x"
  by (simp add: fl_def Let_def sgn_minus)

lemma representable_minus: "representable (- y) \<longleftrightarrow> representable y"
proof -
  have "representable (- y)" if "representable y" for y
  proof -
    from that obtain m k where "y = of_int m * 2 powi k" "\<bar>m\<bar> < 2 ^ 53"
      unfolding representable_def by blast
    then have "- y = of_int (- m) * 2 powi k \<and> \<bar>- m\<bar> < 2 ^ 53" by simp
    then show ?thesis unfolding representable_def by blast
  qed
  from this [of y] this [of "- y"] show ?thesis by auto
qed

lemma fl_nearest_pos:
  assumes x: "0 < x" and y: "representable y"
  shows "\<bar>fl x - x\<bar> \<le> \<bar>y - x\<bar>"
proof -
  define e where "e = ilog2 \<bar>x\<bar>"
  define s where "s = e - 52"
  define q where "q = \<bar>x\<bar> / 2 powi s"
  define M where "M = round_half_even q"
  have ax: "\<bar>x\<bar> = x" using x by simp
  have d: "\<bar>fl x - x\<bar> = 2 powi s * \<bar>of_int M - q\<bar>"
    using fl_abs_diff [of x] x by (simp add: s_def e_def q_def M_def)
  have ps: "(0::rat) < 2 powi s" by simp
  have xq: "x = 2 powi s * q" by (simp add: q_def ax)
  have grid: "\<bar>fl x - x\<bar> \<le> \<bar>2 powi s * of_int j - x\<bar>" for j
  proof -
    have "2 powi s * of_int j - x = 2 powi s * (of_int j - q)" by (simp add: xq algebra_simps)
    then have "\<bar>2 powi s * of_int j - x\<bar> = 2 powi s * \<bar>of_int j - q\<bar>" by (simp add: abs_mult)
    moreover have "\<bar>of_int M - q\<bar> \<le> \<bar>of_int j - q\<bar>" unfolding M_def by (rule round_half_even_nearest)
    ultimately show ?thesis using d ps by simp
  qed
  have lo: "2 powi e \<le> x" using ilog2_lower [of "\<bar>x\<bar>"] x by (simp add: e_def)
  have pe: "(2::rat) powi e = 2 powi s * of_int (2 ^ 52)"
    by (simp add: s_def power_int_diff)
  from y obtain m k where yk: "y = of_int m * 2 powi k" and m: "\<bar>m\<bar> < 2 ^ 53"
    unfolding representable_def by blast
  show ?thesis
  proof (cases "s \<le> k")
    case True
    define t where "t = nat (k - s)"
    have "k = s + int t" using True by (simp add: t_def)
    then have "(2::rat) powi k = 2 powi s * 2 ^ t" by (simp add: power_int_add)
    then have "y = 2 powi s * of_int (m * 2 ^ t)" by (simp add: yk)
    then show ?thesis using grid [of "m * 2 ^ t"] by simp
  next
    case False
    then have "k + 1 \<le> s" by simp
    then have "(2::rat) powi (k + 1) \<le> 2 powi s" by (intro power_int_increasing) simp_all
    then have k2: "(2::rat) powi k * 2 \<le> 2 powi s" by (simp add: power_int_add)
    have "m < 2 ^ 53" using m by simp
    then have "(of_int m :: rat) < of_int (2 ^ 53)" by (simp only: of_int_less_iff)
    then have "(of_int m :: rat) \<le> 2 ^ 53" by simp
    then have "y \<le> 2 ^ 53 * 2 powi k" unfolding yk by (intro mult_right_mono) simp_all
    also have "\<dots> = 2 ^ 52 * (2 powi k * 2)" by simp
    also have "\<dots> \<le> 2 ^ 52 * 2 powi s" using k2 by (intro mult_left_mono) simp_all
    also have "\<dots> = 2 powi e" by (simp add: pe)
    finally have ye: "y \<le> 2 powi e" .
    have "\<bar>fl x - x\<bar> \<le> \<bar>2 powi s * of_int (2 ^ 52) - x\<bar>" by (rule grid)
    also have "\<dots> = x - 2 powi e" using lo by (simp add: pe)
    also have "\<dots> \<le> \<bar>y - x\<bar>" using ye lo by simp
    finally show ?thesis .
  qed
qed

lemma fl_nearest:
  assumes "representable y"
  shows "\<bar>fl x - x\<bar> \<le> \<bar>y - x\<bar>"
proof -
  consider "x = 0" | "0 < x" | "x < 0" by linarith
  then show ?thesis
  proof cases
    case 1
    then show ?thesis by (simp add: fl_def)
  next
    case 2
    then show ?thesis using assms by (rule fl_nearest_pos)
  next
    case 3
    then have "0 < - x" by simp
    moreover have "representable (- y)" using assms by (simp add: representable_minus)
    ultimately have "\<bar>fl (- x) - (- x)\<bar> \<le> \<bar>(- y) - (- x)\<bar>" by (rule fl_nearest_pos)
    then show ?thesis by (simp add: fl_minus abs_minus_commute)
  qed
qed

lemma fl_representable: "representable (fl x)"
proof (cases "x = 0")
  case True
  have "fl x = of_int 0 * 2 powi 0 \<and> \<bar>0::int\<bar> < 2 ^ 53" using True by (simp add: fl_def)
  then show ?thesis unfolding representable_def by blast
next
  case False
  from fl_significand [OF False] obtain m
    where f: "fl x = sgn x * of_int m * 2 powi (ilog2 \<bar>x\<bar> - 52)" and lo: "2 ^ 52 \<le> m" and hi: "m \<le> 2 ^ 53"
    by blast
  define k where "k = ilog2 \<bar>x\<bar> - 52"
  define g :: int where "g = (if 0 < x then 1 else - 1)"
  have sg: "sgn x = of_int g" using False by (simp add: g_def sgn_if)
  show ?thesis
  proof (cases "m = 2 ^ 53")
    case True
    have "fl x = of_int (g * 2 ^ 52) * 2 powi (k + 1)"
      unfolding f sg True k_def [symmetric] by (simp add: power_int_add)
    moreover have "\<bar>g * 2 ^ 52\<bar> < (2 ^ 53 :: int)" by (simp add: g_def)
    ultimately show ?thesis unfolding representable_def by blast
  next
    case False
    with hi have "m < 2 ^ 53" by simp
    with lo have "\<bar>g * m\<bar> < 2 ^ 53" by (simp add: g_def)
    moreover have "fl x = of_int (g * m) * 2 powi k" unfolding f sg k_def by simp
    ultimately show ?thesis unfolding representable_def by blast
  qed
qed


subsection \<open>Percentages\<close>

text \<open>
  The expression \<^verbatim>\<open>Math.round(p / n * 100)\<close> for array lengths \<open>p\<close> and \<open>n\<close>: the
  double product is closer to the exact percentage than \<open>1 / (2 * n)\<close>, so the result is
  an integer nearest to the exact percentage, and the exact rounding unless the exact
  percentage lies halfway between two integers.
\<close>

lemma percent_close:
  assumes n: "0 < n" and p: "p < 2 ^ 32"
  shows "\<bar>js_mul (js_div (of_nat p) (of_nat n)) 100 - 100 * of_nat p / of_nat n\<bar> * (2 * of_nat n) < 1
         \<or> p = 0 \<and> js_mul (js_div (of_nat p) (of_nat n)) 100 = 0"
proof (cases "p = 0")
  case True
  then show ?thesis by (simp add: js_mul_def js_div_def fl_def)
next
  case False
  define q :: rat where "q = of_nat p / of_nat n"
  define y where "y = fl q"
  define z where "z = fl (y * 100)"
  have q0: "0 < q" using False n by (simp add: q_def)
  have ey: "\<bar>y - q\<bar> \<le> q / 2 ^ 53"
    using fl_error [of q] q0 by (simp add: y_def)
  have "q / 2 ^ 53 \<le> q" using q0 by simp
  with ey have yb: "\<bar>y\<bar> \<le> 2 * q" by linarith
  have "\<bar>z - y * 100\<bar> \<le> \<bar>y * 100\<bar> / 2 ^ 53"
    unfolding z_def by (rule fl_error)
  also have "\<dots> = 100 * \<bar>y\<bar> / 2 ^ 53" by (simp add: abs_mult)
  also have "\<dots> \<le> 100 * (2 * q) / 2 ^ 53"
    using yb by (intro divide_right_mono mult_left_mono) simp_all
  finally have ez: "\<bar>z - y * 100\<bar> \<le> 200 * q / 2 ^ 53" by simp
  have sc: "\<bar>y * 100 - 100 * q\<bar> = 100 * \<bar>y - q\<bar>"
    by (cases "q \<le> y") (simp_all add: abs_if)
  have "\<bar>z - 100 * q\<bar> \<le> \<bar>z - y * 100\<bar> + \<bar>y * 100 - 100 * q\<bar>" by linarith
  then have "\<bar>z - 100 * q\<bar> \<le> \<bar>z - y * 100\<bar> + 100 * \<bar>y - q\<bar>" by (simp only: sc)
  also have "\<dots> \<le> 200 * q / 2 ^ 53 + 100 * (q / 2 ^ 53)"
    using ez ey by (intro add_mono mult_left_mono) simp_all
  finally have e: "\<bar>z - 100 * q\<bar> \<le> 300 * q / 2 ^ 53" by simp
  have N: "(0::rat) < 2 * of_nat n" using n by simp
  have "\<bar>z - 100 * q\<bar> * (2 * of_nat n) \<le> 300 * q / 2 ^ 53 * (2 * of_nat n)"
    using e N by (intro mult_right_mono) simp_all
  also have "300 * q / 2 ^ 53 * (2 * of_nat n) = 600 * of_nat p / 2 ^ 53"
    using n by (simp add: q_def)
  also have "\<dots> < 1"
  proof -
    have "600 * p < 2 ^ 53" using p by simp
    then have "of_nat (600 * p) < (of_nat (2 ^ 53) :: rat)" by (simp only: of_nat_less_iff)
    then show ?thesis by simp
  qed
  finally show ?thesis
    by (simp add: js_mul_def js_div_def z_def y_def q_def)
qed

lemma percent_window:
  assumes n: "0 < n" and p: "p < 2 ^ 32"
  defines "r \<equiv> Math_round (js_mul (js_div (of_nat p) (of_nat n)) 100)"
  shows "(2 * r - 1) * int n \<le> 200 * int p \<and> 200 * int p \<le> (2 * r + 1) * int n"
proof -
  define z where "z = js_mul (js_div (of_nat p) (of_nat n)) 100"
  define Z where "Z = z * (2 * of_nat n)"
  have N: "(0::rat) < 2 * of_nat n" using n by simp
  have r: "r = \<lfloor>z + 1/2\<rfloor>" by (simp add: r_def z_def Math_round_def)
  have "of_int r \<le> z + 1/2" "z + 1/2 < of_int r + 1" unfolding r by linarith+
  then have "(of_int r - 1/2) * (2 * of_nat n) \<le> z * (2 * of_nat n)"
    and "z * (2 * of_nat n) < (of_int r + 1/2) * (2 * of_nat n)"
    using N by (simp_all only: mult_le_cancel_right_pos mult_less_cancel_right_pos)
  then have lo: "of_int ((2 * r - 1) * int n) \<le> Z" and hi: "Z < of_int ((2 * r + 1) * int n)"
    by (simp_all add: Z_def algebra_simps)
  have close: "\<bar>Z - of_int (200 * int p)\<bar> < 1"
  proof -
    have "\<bar>z - 100 * of_nat p / of_nat n\<bar> * (2 * of_nat n) < 1 \<or> p = 0 \<and> z = 0"
      unfolding z_def using n p by (rule percent_close)
    then show ?thesis
    proof
      assume "p = 0 \<and> z = 0"
      then show ?thesis by (simp add: Z_def)
    next
      assume a: "\<bar>z - 100 * of_nat p / of_nat n\<bar> * (2 * of_nat n) < 1"
      have "\<bar>z - 100 * of_nat p / of_nat n\<bar> * (2 * of_nat n)
            = \<bar>(z - 100 * of_nat p / of_nat n) * (2 * of_nat n)\<bar>"
        using N by (simp add: abs_mult)
      also have "(z - 100 * of_nat p / of_nat n) * (2 * of_nat n) = Z - of_int (200 * int p)"
        using n by (simp add: Z_def algebra_simps)
      finally show ?thesis using a by simp
    qed
  qed
  have "of_int (200 * int p) < (of_int ((2 * r + 1) * int n) :: rat) + 1"
    using hi close by linarith
  then have "(of_int (200 * int p) :: rat) < of_int ((2 * r + 1) * int n + 1)"
    by simp
  then have 1: "200 * int p < (2 * r + 1) * int n + 1" by (simp only: of_int_less_iff)
  have "(of_int ((2 * r - 1) * int n) :: rat) < of_int (200 * int p) + 1"
    using lo close by linarith
  then have "(of_int ((2 * r - 1) * int n) :: rat) < of_int (200 * int p + 1)"
    by simp
  then have 2: "(2 * r - 1) * int n < 200 * int p + 1" by (simp only: of_int_less_iff)
  from 1 2 show ?thesis by simp
qed

lemma percent_nearest:
  assumes n: "0 < n" and p: "p < 2 ^ 32"
  shows "\<bar>of_int (Math_round (js_mul (js_div (of_nat p) (of_nat n)) 100))
          - 100 * of_nat p / of_nat n\<bar> \<le> (1/2 :: rat)"
proof -
  define r where "r = Math_round (js_mul (js_div (of_nat p) (of_nat n)) 100)"
  have w: "(2 * r - 1) * int n \<le> 200 * int p" "200 * int p \<le> (2 * r + 1) * int n"
    using percent_window [OF n p] by (simp_all add: r_def)
  have N: "(0::rat) < of_nat n" using n by simp
  from w have "(of_int ((2 * r - 1) * int n) :: rat) \<le> of_int (200 * int p)"
    and "(of_int (200 * int p) :: rat) \<le> of_int ((2 * r + 1) * int n)"
    by (simp_all only: of_int_le_iff)
  then have "(2 * of_int r - 1) * of_nat n \<le> (200 * of_nat p :: rat)"
    and "(200 * of_nat p :: rat) \<le> (2 * of_int r + 1) * of_nat n"
    by simp_all
  then have "2 * of_int r - 1 \<le> (200 * of_nat p / of_nat n :: rat)"
    and "(200 * of_nat p / of_nat n :: rat) \<le> 2 * of_int r + 1"
    using N by (simp_all add: pos_le_divide_eq pos_divide_le_eq)
  moreover have "100 * of_nat p / of_nat n = (200 * of_nat p / of_nat n) / (2::rat)" by simp
  ultimately show ?thesis unfolding r_def [symmetric] by linarith
qed

lemma percent_exact:
  assumes n: "0 < n" and p: "p < 2 ^ 32" and tie: "(200 * p) mod (2 * n) \<noteq> n"
  shows "Math_round (js_mul (js_div (of_nat p) (of_nat n)) 100) = (200 * int p + int n) div (2 * int n)"
proof -
  define r where "r = Math_round (js_mul (js_div (of_nat p) (of_nat n)) 100)"
  have w: "(2 * r - 1) * int n \<le> 200 * int p" "200 * int p \<le> (2 * r + 1) * int n"
    using percent_window [OF n p] by (simp_all add: r_def)
  have "200 * int p \<noteq> (2 * r + 1) * int n"
  proof
    assume "200 * int p = (2 * r + 1) * int n"
    then have "200 * int p = r * (2 * int n) + int n" by (simp add: algebra_simps)
    then have "(200 * int p) mod (2 * int n) = int n" using n by simp
    then have "int ((200 * p) mod (2 * n)) = int n" by (simp add: zmod_int)
    with tie show False by simp
  qed
  with w have u: "200 * int p < (2 * r + 1) * int n" by simp
  have "(200 * int p + int n) div (2 * int n) = r"
  proof (rule int_div_pos_eq [where r = "200 * int p + int n - r * (2 * int n)"])
    show "200 * int p + int n = 2 * int n * r + (200 * int p + int n - r * (2 * int n))" by simp
    show "0 \<le> 200 * int p + int n - r * (2 * int n)" using w by (simp add: algebra_simps)
    show "200 * int p + int n - r * (2 * int n) < 2 * int n" using u by (simp add: algebra_simps)
  qed
  then show ?thesis by (simp add: r_def)
qed

section \<open>Evaluating the number model\<close>

lemma Math_round_of_int: "Math_round (of_int k) = k"
  unfolding Math_round_def by (rule floor_unique) simp_all


lemma Math_round_fifths: "Math_round (100 * of_int i / 5) = 20 * i"
proof -
  have "100 * of_int i / 5 = (of_int (20 * i) :: rat)" by simp
  then show ?thesis by (simp only: Math_round_of_int)
qed

lemma Math_round_numeral_div:
  "Math_round (numeral a / numeral b) = (2 * numeral a + numeral b) div (2 * numeral b)"
proof -
  have "numeral a / numeral b + 1 / 2
          = (of_int (2 * numeral a + numeral b) / of_int (2 * numeral b) :: rat)"
    by (simp add: field_simps)
  then show ?thesis
    unfolding Math_round_def by (simp only: floor_divide_of_int_eq)
qed

lemma Math_round_percent:
  assumes "0 < n"
  shows "Math_round (100 * of_nat p / of_nat n) = (200 * int p + int n) div (2 * int n)"
proof -
  have "100 * of_nat p / of_nat n + 1 / 2 = (of_int (200 * int p + int n) / of_int (2 * int n) :: rat)"
    using assms by (simp add: field_simps)
  then show ?thesis
    unfolding Math_round_def by (simp only: floor_divide_of_int_eq)
qed

text \<open>
  Known doubles: \<^verbatim>\<open>0.1\<close> is \<open>3602879701896397 / 2 ^ 55\<close>. The quotient \<^verbatim>\<open>23 / 40\<close> is
  the double just below \<open>0.575\<close>, and its product with \<open>100\<close> is the double
  \<^verbatim>\<open>57.49999999999999\<close>, just below the tie \<open>57.5\<close>.
\<close>

lemma double_tenth: "fl (1 / 10) = 3602879701896397 / 2 ^ 55"
  by code_simp

lemma double_23_40:
  "js_div 23 40 = 2589569785738035 / 2 ^ 52 \<and>
   js_mul (js_div 23 40) 100 = 8092405580431359 / 2 ^ 47"
  by code_simp

lemma round_23_40: "Math_round (js_mul (js_div 23 40) 100) = 57"
  by code_simp

section \<open>Stable sorting\<close>

lemma insert_by_insort_key:
  assumes "\<And>a b. cmp a b \<le> 0 \<longleftrightarrow> f a \<le> f b"
  shows "insert_by cmp x ys = insort_key f x ys"
  by (induction ys) (simp_all add: assms)

lemma Array_sort_sort_key:
  assumes "\<And>a b. cmp a b \<le> 0 \<longleftrightarrow> f a \<le> f b"
  shows "Array_sort cmp xs = sort_key f xs"
proof -
  have "insert_by cmp = insort_key f"
    by (intro ext) (rule insert_by_insort_key [OF assms])
  then show ?thesis by (simp add: Array_sort_def sort_key_def)
qed

text \<open>
  The head of a stably sorted list has the least key and is the first element of the input
  with that key.
\<close>

lemma sort_key_head:
  assumes "sort_key f ys = e # rest"
  shows "e \<in> set ys" and "\<forall>y\<in>set ys. f e \<le> f y"
    and "\<exists>vs. filter (\<lambda>y. f y = f e) ys = e # vs"
proof -
  have s: "set ys = set (e # rest)" using assms set_sort [of f ys] by simp
  then show "e \<in> set ys" by simp
  have "sorted (map f (sort_key f ys))" by (rule sorted_sort_key)
  with assms have "\<forall>y\<in>set rest. f e \<le> f y" by simp
  with s show "\<forall>y\<in>set ys. f e \<le> f y" by auto
  have "filter (\<lambda>y. f y = f e) ys = filter (\<lambda>y. f y = f e) (sort_key f ys)"
    by (rule sort_key_stable [symmetric])
  also have "\<dots> = e # filter (\<lambda>y. f y = f e) rest" using assms by simp
  finally show "\<exists>vs. filter (\<lambda>y. f y = f e) ys = e # vs" by blast
qed

lemma getLatestExecution_sort_key:
  "getLatestExecution executions tcId =
     (case sort_key (\<lambda>e. - execution_date e) (filter (\<lambda>e. test_case_id e = tcId) executions) of
        [] \<Rightarrow> None | e # _ \<Rightarrow> Some e)"
  unfolding getLatestExecution_def
  by (subst Array_sort_sort_key [where f = "\<lambda>e. - execution_date e"]) simp_all

lemma length_filter_mem_distinct:
  assumes "distinct xs" and "A \<subseteq> set xs" and "finite A"
  shows "length (filter (\<lambda>x. x \<in> A) xs) = card A"
proof -
  have "distinct (filter (\<lambda>x. x \<in> A) xs)" using assms(1) by simp
  then have "length (filter (\<lambda>x. x \<in> A) xs) = card (set (filter (\<lambda>x. x \<in> A) xs))"
    by (rule distinct_card [symmetric])
  also have "set (filter (\<lambda>x. x \<in> A) xs) = A" using assms(2) by auto
  finally show ?thesis .
qed

section \<open>Traceability coverage\<close>


lemma vsr_coverage_nearest:
  assumes "complete_chains < 2 ^ 32"
  shows "\<bar>of_int (vsr_coverage complete_chains total_urs)
           - 100 * of_nat complete_chains / of_nat (max total_urs 1)\<bar> \<le> (1/2 :: rat)"
  unfolding vsr_coverage_def using assms by (intro percent_nearest) simp_all






section \<open>Latest execution of a test case\<close>

text \<open>
  Claim C2, as the code has it. \<open>getLatestExecution\<close> finds no execution exactly when the
  test case has none; otherwise the execution it selects belongs to the test case, no
  execution of the test case has a later timestamp, and every execution of the test case
  that precedes it in the loaded list has a strictly earlier timestamp: among the
  executions with the greatest timestamp the first one of the list is selected, whatever
  the cycles are. The Status column shows the result of the selected execution, and
  \<^verbatim>\<open>Not Executed\<close> when there is none.
\<close>

theorem getLatestExecution_latest:
  "(getLatestExecution executions tcId = None \<longleftrightarrow> (\<forall>x\<in>set executions. test_case_id x \<noteq> tcId)) \<and>
   (\<forall>e. getLatestExecution executions tcId = Some e \<longrightarrow>
      test_case_id e = tcId \<and>
      (\<forall>x\<in>set executions. test_case_id x = tcId \<longrightarrow> execution_date x \<le> execution_date e) \<and>
      (\<exists>before after. executions = before @ e # after \<and>
         (\<forall>x\<in>set before. test_case_id x = tcId \<longrightarrow> execution_date x < execution_date e))) \<and>
   status_column executions tc =
     (case getLatestExecution executions (TestCase.id tc) of
        None \<Rightarrow> Not_Executed | Some e \<Rightarrow> result e)"
proof (intro conjI allI impI)
  show "status_column executions tc =
     (case getLatestExecution executions (TestCase.id tc) of
        None \<Rightarrow> Not_Executed | Some e \<Rightarrow> result e)"
    by (simp add: status_column_def split: option.split)
  define ys where "ys = filter (\<lambda>e. test_case_id e = tcId) executions"
  define f :: "TestExecution \<Rightarrow> int" where "f = (\<lambda>e. - execution_date e)"
  have g: "getLatestExecution executions tcId = (case sort_key f ys of [] \<Rightarrow> None | e # _ \<Rightarrow> Some e)"
    by (simp add: getLatestExecution_sort_key ys_def f_def)
  have "getLatestExecution executions tcId = None \<longleftrightarrow> sort_key f ys = []"
    by (simp add: g split: list.split)
  also have "\<dots> \<longleftrightarrow> ys = []"
    using length_sort [of f ys] by (metis length_0_conv)
  also have "\<dots> \<longleftrightarrow> (\<forall>x\<in>set executions. test_case_id x \<noteq> tcId)"
    by (simp add: ys_def filter_empty_conv)
  finally show "getLatestExecution executions tcId = None \<longleftrightarrow> (\<forall>x\<in>set executions. test_case_id x \<noteq> tcId)" .
  fix e
  assume "getLatestExecution executions tcId = Some e"
  then obtain rest where r: "sort_key f ys = e # rest"
    by (auto simp: g split: list.splits)
  have m: "e \<in> set ys" by (rule sort_key_head(1) [OF r])
  then show tc: "test_case_id e = tcId" by (simp add: ys_def)
  have le: "\<forall>y\<in>set ys. f e \<le> f y" by (rule sort_key_head(2) [OF r])
  then show mx: "\<forall>x\<in>set executions. test_case_id x = tcId \<longrightarrow> execution_date x \<le> execution_date e"
    by (simp add: ys_def f_def)
  obtain vs where "filter (\<lambda>y. f y = f e) ys = e # vs"
    using sort_key_head(3) [OF r] by blast
  then have "filter (\<lambda>y. test_case_id y = tcId \<and> f y = f e) executions = e # vs"
    by (simp add: ys_def conj_commute)
  then obtain before after where d: "executions = before @ e # after"
    and b: "\<forall>u\<in>set before. \<not> (test_case_id u = tcId \<and> f u = f e)"
    unfolding filter_eq_Cons_iff by blast
  have "\<forall>x\<in>set before. test_case_id x = tcId \<longrightarrow> execution_date x < execution_date e"
  proof (intro ballI impI)
    fix x assume x: "x \<in> set before" "test_case_id x = tcId"
    with b have "execution_date x \<noteq> execution_date e" by (auto simp: f_def)
    moreover have "execution_date x \<le> execution_date e" using mx x d by simp
    ultimately show "execution_date x < execution_date e" by simp
  qed
  with d show "\<exists>before after. executions = before @ e # after \<and>
         (\<forall>x\<in>set before. test_case_id x = tcId \<longrightarrow> execution_date x < execution_date e)"
    by blast
qed

lemma getLatestExecution_example:
  "getLatestExecution [ex_fail, ex_late, ex_skipped, ex_pass] ''TC-001'' = Some ex_late"
  by (simp add: getLatestExecution_def Array_sort_def ex_fail_def ex_late_def ex_skipped_def ex_pass_def)

theorem getLatestExecution_latest_witness:
  "getLatestExecution [ex_fail, ex_late, ex_skipped, ex_pass] ''TC-001'' = Some ex_late \<and>
   getLatestExecution [ex_fail, ex_late, ex_skipped, ex_pass] ''TC-009'' = None \<and>
   execution_date ex_fail \<le> execution_date ex_late \<and>
   execution_date ex_pass \<le> execution_date ex_late \<and>
   status_column [ex_fail, ex_late, ex_skipped, ex_pass] tc_1 = Blocked"
  using getLatestExecution_latest [of "[ex_fail, ex_late, ex_skipped, ex_pass]" "''TC-001''" tc_1]
    getLatestExecution_latest [of "[ex_fail, ex_late, ex_skipped, ex_pass]" "''TC-009''" tc_1]
    getLatestExecution_example
  by (simp add: ex_fail_def ex_late_def ex_skipped_def ex_pass_def tc_1_def)

text \<open>
  Two executions of one test case with equal timestamps, cycle 1 (Fail) listed before
  cycle 2 (Pass): the execution of cycle 1 is selected and the Status column shows Fail.
\<close>

theorem getLatestExecution_tie_counterexample:
  "getLatestExecution [ex_fail, ex_pass] ''TC-001'' = Some ex_fail \<and>
   test_case_id ex_pass = ''TC-001'' \<and>
   execution_date ex_pass = execution_date ex_fail \<and>
   cycle ex_fail < cycle ex_pass \<and>
   status_column [ex_fail, ex_pass] tc_1 = Fail"
  by (simp add: status_column_def getLatestExecution_def Array_sort_def ex_fail_def ex_pass_def tc_1_def)

section \<open>Pass rate\<close>

lemma passRate_unfold:
  "passRate testCases executions =
     (if testCases = [] then 0
      else Math_round (js_mul (js_div (of_nat (length (filter (\<lambda>e. result e = Pass) executions)))
              (of_nat (max 1 (length (filter (\<lambda>e. result e \<noteq> Not_Executed) executions))))) 100))"
  by (simp add: passRate_def test_stats_def Let_def max.commute)

text \<open>
  Claim C3, as the code has it. With \<open>p\<close> the number of executions with result Pass and
  \<open>n\<close> the larger of \<open>1\<close> and the number of executions whose result is not
  \<^verbatim>\<open>Not Executed\<close>: the pass rate is \<open>0\<close> when the list of test cases is empty, whatever
  the executions are; otherwise it is \<^verbatim>\<open>Math.round(p / n * 100)\<close>, an integer nearest to
  \<open>100 * p / n\<close>, and equal to \<open>100 * p / n\<close> rounded half up unless that value lies
  halfway between two integers, where the double product decides. The list of executions
  is a JavaScript array, shorter than \<open>2 ^ 32\<close>.
\<close>

theorem passRate_nearest:
  assumes "length executions < 2 ^ 32"
  shows "(testCases = [] \<longrightarrow> passRate testCases executions = 0) \<and>
         (testCases \<noteq> [] \<longrightarrow>
           (let p = length (filter (\<lambda>e. result e = Pass) executions);
                n = max 1 (length (filter (\<lambda>e. result e \<noteq> Not_Executed) executions))
            in \<bar>of_int (passRate testCases executions) - 100 * of_nat p / of_nat n\<bar> \<le> (1/2 :: rat) \<and>
               ((200 * p) mod (2 * n) \<noteq> n \<longrightarrow>
                  passRate testCases executions = Math_round (100 * of_nat p / of_nat n))))"
proof -
  define p where "p = length (filter (\<lambda>e. result e = Pass) executions)"
  define n where "n = max 1 (length (filter (\<lambda>e. result e \<noteq> Not_Executed) executions))"
  have n: "0 < n" by (simp add: n_def)
  have "p \<le> length executions" unfolding p_def by (rule length_filter_le)
  with assms have p: "p < 2 ^ 32" by simp
  have u: "passRate testCases executions =
             (if testCases = [] then 0 else Math_round (js_mul (js_div (of_nat p) (of_nat n)) 100))"
    by (simp only: passRate_unfold p_def n_def)
  have "\<bar>of_int (Math_round (js_mul (js_div (of_nat p) (of_nat n)) 100)) - 100 * of_nat p / of_nat n\<bar>
          \<le> (1/2 :: rat)"
    using n p by (rule percent_nearest)
  moreover have "Math_round (js_mul (js_div (of_nat p) (of_nat n)) 100) = Math_round (100 * of_nat p / of_nat n)"
    if "(200 * p) mod (2 * n) \<noteq> n"
    using percent_exact [OF n p that] Math_round_percent [OF n, of p] by simp
  ultimately show ?thesis
    unfolding Let_def p_def [symmetric] n_def [symmetric] using u by (cases "testCases = []") simp_all
qed

text \<open>Two passes among three executions: 67. No test case loaded: 0.\<close>

theorem passRate_nearest_witness:
  "passRate [] [ex_pass] = 0 \<and> passRate [tc_1] [ex_pass, ex_fail, ex_pass] = 67"
  using passRate_nearest [of "[ex_pass]" "[]"]
    passRate_nearest [of "[ex_pass, ex_fail, ex_pass]" "[tc_1]"]
  by (simp add: ex_pass_def ex_fail_def Math_round_numeral_div)

text \<open>
  23 passes and 17 failures: \<open>100 * 23 / 40\<close> is \<open>57.5\<close>, which rounds to 58; the page
  computes \<^verbatim>\<open>23 / 40 * 100\<close>, the double \<^verbatim>\<open>57.49999999999999\<close>, and shows 57.
\<close>

theorem passRate_tie_counterexample:
  "passRate [tc_1] (replicate 23 ex_pass @ replicate 17 ex_fail) = 57 \<and>
   Math_round (100 * of_nat (length (filter (\<lambda>e. result e = Pass)
                     (replicate 23 ex_pass @ replicate 17 ex_fail)))
               / of_nat (max 1 (length (filter (\<lambda>e. result e \<noteq> Not_Executed)
                     (replicate 23 ex_pass @ replicate 17 ex_fail))))) = 58"
  by (simp add: passRate_unfold ex_pass_def ex_fail_def round_23_40) (code_simp)

section \<open>Approve controls\<close>

text \<open>
  Claim C4, as the code has it. On the requirements, FS, DS and system-boundary pages the
  Approve control is rendered exactly when the artifact is not yet Approved and a user
  is logged in whose role is QA. No other role is offered the control, Admin included.
\<close>

theorem approve_offered_iff_QA:
  "(URSPage_approve user selectedURS \<longleftrightarrow>
      Requirement.status selectedURS \<noteq> URS_Approved \<and> (\<exists>u. user = Some u \<and> role u = QA)) \<and>
   (FSPage_approve user selectedFS \<longleftrightarrow>
      FunctionalSpecification.status selectedFS \<noteq> FS_Approved \<and> (\<exists>u. user = Some u \<and> role u = QA)) \<and>
   (DSPage_approve user selectedDS \<longleftrightarrow>
      DesignSpecification.status selectedDS \<noteq> DS_Approved \<and> (\<exists>u. user = Some u \<and> role u = QA)) \<and>
   (SystemBoundaryPage_approve user boundary \<longleftrightarrow>
      SystemBoundary.status boundary \<noteq> ''Approved'' \<and> (\<exists>u. user = Some u \<and> role u = QA))"
  by (cases user)
    (auto simp: URSPage_approve_def FSPage_approve_def DSPage_approve_def
       SystemBoundaryPage_approve_def user_role_def)

theorem approve_offered_iff_QA_witness:
  "URSPage_approve (Some qa_user) req_draft \<and> \<not> URSPage_approve (Some qa_user) req_approved \<and>
   FSPage_approve (Some qa_user) fs_review \<and> \<not> FSPage_approve None fs_review"
  using approve_offered_iff_QA [of "Some qa_user" req_draft fs_review]
    approve_offered_iff_QA [of "Some qa_user" req_approved fs_review]
    approve_offered_iff_QA [of None req_draft fs_review]
  by (simp add: qa_user_def req_draft_def req_approved_def fs_review_def)

text \<open>An Admin looking at a Draft requirement is not offered the Approve control.\<close>

theorem approve_admin_counterexample:
  "Requirement.status req_draft \<noteq> URS_Approved \<and> role admin_user = Admin \<and>
   \<not> URSPage_approve (Some admin_user) req_draft"
  by (simp add: URSPage_approve_def user_role_def req_draft_def admin_user_def)

section \<open>Creation forms\<close>

text \<open>
  Claim C5. The FS creation form offers as parents exactly the requirements whose status
  is Approved, in the order of the loaded list, and the New FS button is disabled exactly
  when no loaded requirement is Approved; the DS creation form and the New DS button do
  the same with the Approved functional specifications.
\<close>

theorem creation_forms_offer_approved:
  "map fst (FS_form_options ursList)
     = map Requirement.id (filter (\<lambda>u. Requirement.status u = URS_Approved) ursList) \<and>
   (new_FS_disabled ursList \<longleftrightarrow> (\<forall>u\<in>set ursList. Requirement.status u \<noteq> URS_Approved)) \<and>
   map fst (DS_form_options fsList)
     = map FunctionalSpecification.id
         (filter (\<lambda>f. FunctionalSpecification.status f = FS_Approved) fsList) \<and>
   (new_DS_disabled fsList \<longleftrightarrow> (\<forall>f\<in>set fsList. FunctionalSpecification.status f \<noteq> FS_Approved))"
  by (simp add: FS_form_options_def DS_form_options_def new_FS_disabled_def new_DS_disabled_def
        approvedURS_def approvedFS_def filter_empty_conv comp_def)

theorem creation_forms_offer_approved_witness:
  "map fst (FS_form_options [req_draft, req_approved]) = [''URS-002''] \<and>
   \<not> new_FS_disabled [req_draft, req_approved] \<and> new_FS_disabled [req_draft] \<and>
   map fst (DS_form_options [fs_review, fs_approved]) = [''FS-002''] \<and>
   \<not> new_DS_disabled [fs_review, fs_approved] \<and> new_DS_disabled [fs_review]"
  using creation_forms_offer_approved [of "[req_draft, req_approved]" "[fs_review, fs_approved]"]
    creation_forms_offer_approved [of "[req_draft]" "[fs_review]"]
  by (simp add: req_draft_def req_approved_def fs_review_def fs_approved_def)

section \<open>Recording executions\<close>

text \<open>
  Claim C6. The Execute button of a test-case row, which opens the dialog that records a
  TestExecution, is enabled exactly for a logged-in user whose role is Executor or Admin;
  the test case of the row plays no part in the condition.
\<close>

theorem execute_enabled_iff:
  "\<not> execute_disabled user \<longleftrightarrow> (\<exists>u. user = Some u \<and> (role u = Executor \<or> role u = Admin))"
  by (cases user) (auto simp: execute_disabled_def user_role_def)

theorem execute_enabled_iff_witness:
  "\<not> execute_disabled (Some executor_user) \<and> \<not> execute_disabled (Some admin_user) \<and>
   execute_disabled (Some qa_user) \<and> execute_disabled None"
  using execute_enabled_iff [of "Some executor_user"] execute_enabled_iff [of "Some admin_user"]
    execute_enabled_iff [of "Some qa_user"] execute_enabled_iff [of None]
  by (simp add: executor_user_def admin_user_def qa_user_def)

section \<open>Logging a deviation\<close>

lemma submit_deviation_Inr:
  "submit_deviation vs = Inr payload \<Longrightarrow>
     f_test_execution_id vs = Some (test_execution_id payload) \<and> test_execution_id payload \<noteq> []"
  by (auto simp: submit_deviation_def required_errors_def truthy_def
        split: option.splits if_splits)

lemma submit_deviation_Inl:
  "\<not> truthy (f_test_execution_id vs) \<Longrightarrow>
     submit_deviation vs = Inl (required_errors vs) \<and>
     Required ''test_execution_id'' \<in> set (required_errors vs)"
  by (auto simp: submit_deviation_def required_errors_def truthy_def split: option.splits)

text \<open>
  Claim C7, as the code has it. The executions offered for linking in the form
  \<^verbatim>\<open>Log New Deviation\<close> are exactly the loaded executions whose result is Fail, in the
  order of the loaded list. The link is required: a submission without it is rejected
  with a validation error of that field and sends nothing, and every request that is sent
  carries the non-empty execution id that was selected.
\<close>

theorem deviation_link_required:
  "map fst (deviation_form_options execs)
     = map TestExecution.id (filter (\<lambda>e. result e = Fail) execs) \<and>
   (\<not> truthy (f_test_execution_id vs) \<longrightarrow>
      submit_deviation vs = Inl (required_errors vs) \<and>
      Required ''test_execution_id'' \<in> set (required_errors vs)) \<and>
   (\<forall>payload. submit_deviation vs = Inr payload \<longrightarrow>
      f_test_execution_id vs = Some (test_execution_id payload) \<and>
      test_execution_id payload \<noteq> [])"
  using submit_deviation_Inr [of vs] submit_deviation_Inl [of vs]
  by (auto simp: deviation_form_options_def failed_executions_def comp_def)

theorem deviation_link_required_witness:
  "map fst (deviation_form_options [ex_fail, ex_pass, ex_late]) = [''EX-001''] \<and>
   submit_deviation fields_unlinked = Inl [Required ''test_execution_id''] \<and>
   (\<exists>payload. submit_deviation fields_linked = Inr payload \<and> test_execution_id payload = ''EX-001'')"
  using deviation_link_required [of "[ex_fail, ex_pass, ex_late]" fields_unlinked]
    deviation_link_required [of "[ex_fail, ex_pass, ex_late]" fields_linked]
  by (simp add: ex_fail_def ex_pass_def ex_late_def fields_unlinked_def fields_linked_def
        truthy_def required_errors_def submit_deviation_def)

text \<open>
  A process deviation with every field filled except the execution link: the form
  reports the link as required and no deviation is created.
\<close>

theorem deviation_link_omitted_counterexample:
  "f_test_execution_id fields_unlinked = None \<and>
   submit_deviation fields_unlinked = Inl [Required ''test_execution_id'']"
  by (simp add: fields_unlinked_def submit_deviation_def required_errors_def truthy_def)

section \<open>Deviation column of the traceability matrix\<close>

text \<open>
  Claim C8. For a row without a linked deviation (its \<^verbatim>\<open>deviation_id\<close> is absent or
  empty) the Deviation column shows the \<^verbatim>\<open>Expected\<close> marker exactly when the row's
  execution result is \<^verbatim>\<open>Fail\<close>; with any other execution result, or none, the cell is
  empty.
\<close>

theorem deviation_column_expected:
  assumes "\<not> truthy (deviation_id row)"
  shows "(deviation_column row = ExpectedTag \<longleftrightarrow> exec_result row = Some ''Fail'') \<and>
         (exec_result row \<noteq> Some ''Fail'' \<longrightarrow> deviation_column row = NoCell)"
  using assms by (auto simp: deviation_column_def truthy_def split: option.splits)

theorem deviation_column_expected_witness:
  "deviation_column row_b = ExpectedTag \<and> deviation_column row_a = NoCell \<and>
   deviation_column row_c = NoCell"
  using deviation_column_expected [of row_a] deviation_column_expected [of row_b]
    deviation_column_expected [of row_c]
  by (simp add: truthy_def row_a_def row_b_def row_c_def)

section \<open>Project progress\<close>

lemma getProgressPercent_eval:
  "map getProgressPercent [Planning, URS, FS, DS, Testing, Completed, On_Hold]
     = [0, 20, 40, 60, 80, 100, - 20]"
  by code_simp

lemma indexOf_stages_eval:
  "map (indexOf stages) [Planning, URS, FS, DS, Testing, Completed, On_Hold]
     = [0, 1, 2, 3, 4, 5, - 1]"
  by (simp add: stages_def)

text \<open>
  Claim C9. For every project status \<open>getProgressPercent\<close> returns
  \<open>100 * index / 5\<close> rounded, where \<open>index\<close> is the position of the status in the list
  Planning, URS, FS, DS, Testing, Completed: the values 0, 20, 40, 60, 80 and 100. The
  status On Hold is not in the list, its index is \<open>-1\<close> and the function returns \<open>-20\<close>.
\<close>

theorem getProgressPercent_values:
  "getProgressPercent st = Math_round (100 * of_int (indexOf stages st) / 5) \<and>
   map (indexOf stages) [Planning, URS, FS, DS, Testing, Completed, On_Hold]
     = [0, 1, 2, 3, 4, 5, - 1] \<and>
   map getProgressPercent [Planning, URS, FS, DS, Testing, Completed, On_Hold]
     = [0, 20, 40, 60, 80, 100, - 20]"
proof (intro conjI)
  have "getProgressPercent st = 20 * indexOf stages st"
    using getProgressPercent_eval indexOf_stages_eval by (cases st) simp_all
  then show "getProgressPercent st = Math_round (100 * of_int (indexOf stages st) / 5)"
    by (simp only: Math_round_fifths)
qed (rule indexOf_stages_eval, rule getProgressPercent_eval)

theorem getProgressPercent_values_witness:
  "getProgressPercent On_Hold = - 20 \<and> indexOf stages On_Hold = - 1 \<and>
   getProgressPercent Testing = 80"
  using getProgressPercent_values [of On_Hold] Math_round_of_int [of "- 20"] by simp

section \<open>Pending executions\<close>

text \<open>
  Claim C10. The statistic \<^verbatim>\<open>Pending Execution\<close> is the number of loaded test cases
  minus the number of distinct test-case ids among the loaded executions. It is negative
  exactly when the executions mention more distinct test-case ids than there are loaded
  test cases. When the loaded test cases have distinct ids and every execution belongs to
  one of them, it counts the test cases without any execution, so that a test case whose
  only executions have the result \<^verbatim>\<open>Not Executed\<close> is not counted.
\<close>

theorem notExecuted_formula:
  "TestStats.notExecuted (test_stats testCases executions)
     = int (length testCases) - int (card (test_case_id ` set executions)) \<and>
   (TestStats.notExecuted (test_stats testCases executions) < 0 \<longleftrightarrow>
      length testCases < card (test_case_id ` set executions)) \<and>
   (distinct (map TestCase.id testCases) \<and>
    test_case_id ` set executions \<subseteq> TestCase.id ` set testCases \<longrightarrow>
      TestStats.notExecuted (test_stats testCases executions)
        = int (length (filter (\<lambda>tc. \<forall>e\<in>set executions. test_case_id e \<noteq> TestCase.id tc) testCases)))"
proof (intro conjI impI)
  define A where "A = test_case_id ` set executions"
  show f: "TestStats.notExecuted (test_stats testCases executions)
     = int (length testCases) - int (card (test_case_id ` set executions))"
    by (simp add: test_stats_def Set_size_def)
  then show "TestStats.notExecuted (test_stats testCases executions) < 0 \<longleftrightarrow>
      length testCases < card (test_case_id ` set executions)"
    by simp
  assume "distinct (map TestCase.id testCases) \<and>
    test_case_id ` set executions \<subseteq> TestCase.id ` set testCases"
  then have d: "distinct (map TestCase.id testCases)" and s: "A \<subseteq> set (map TestCase.id testCases)"
    by (simp_all add: A_def)
  have "length (filter (\<lambda>x. x \<in> A) (map TestCase.id testCases)) = card A"
    using d s by (rule length_filter_mem_distinct) (simp add: A_def)
  then have 1: "length (filter (\<lambda>tc. TestCase.id tc \<in> A) testCases) = card A"
    by (simp add: filter_map comp_def)
  have "length testCases = length (filter (\<lambda>tc. TestCase.id tc \<in> A) testCases)
          + length (filter (\<lambda>tc. \<not> TestCase.id tc \<in> A) testCases)"
    by (rule sum_length_filter_compl [symmetric])
  with 1 have 2: "int (length testCases) - int (card A)
                 = int (length (filter (\<lambda>tc. TestCase.id tc \<notin> A) testCases))"
    by simp
  have 3: "filter (\<lambda>tc. TestCase.id tc \<notin> A) testCases
           = filter (\<lambda>tc. \<forall>e\<in>set executions. test_case_id e \<noteq> TestCase.id tc) testCases"
    by (rule filter_cong) (auto simp: A_def image_iff)
  show "TestStats.notExecuted (test_stats testCases executions)
        = int (length (filter (\<lambda>tc. \<forall>e\<in>set executions. test_case_id e \<noteq> TestCase.id tc) testCases))"
    unfolding f 3 [symmetric] using 2 by (simp only: A_def)
qed

text \<open>
  Two test cases, the second with one execution that was not carried out: one test case
  is pending. No test case loaded and executions of two test cases: \<open>-2\<close>.
\<close>

theorem notExecuted_formula_witness:
  "TestStats.notExecuted (test_stats [tc_1, tc_2] [ex_skipped]) = 1 \<and>
   TestStats.notExecuted (test_stats [] [ex_fail, ex_skipped]) = - 2 \<and>
   filter (\<lambda>tc. \<forall>e\<in>set [ex_skipped]. test_case_id e \<noteq> TestCase.id tc) [tc_1, tc_2] = [tc_1]"
  using notExecuted_formula [of "[tc_1, tc_2]" "[ex_skipped]"]
    notExecuted_formula [of "[]" "[ex_fail, ex_skipped]"]
  by (simp add: tc_1_def tc_2_def ex_skipped_def ex_fail_def)

end
